theory Spec2Isabelle
  imports Main "HOL-Library.Sublist" "HOL-Library.Multiset"
begin

section \<open>The thread pool of src/shared/ThreadPool.cpp\<close>

text \<open>
  The pool is modelled as one record holding the members of the class
  \<^verbatim>\<open>ThreadPool\<close>, the workers it owns, the shared states of the promises it has
  created and the log sink. The public operations are functions on that record.
  The worker threads are modelled by a program counter per worker and a step
  function that executes one source statement of one worker; a schedule (a list
  of worker numbers) is an interleaving of the worker threads.
\<close>

subsection \<open>Data model\<close>

datatype Status = READY | PROCESSING | ERROR | TERMINATING

datatype ClearMode = AT_NEXT_WORKLOAD | UPPON_COMPLETION

datatype ErrorHandling = NONE | IGNORE | TERMINATE

text \<open>
  A captured exception (\<^verbatim>\<open>std::exception_ptr\<close>). The handlers of
  \<^verbatim>\<open>loop_wrapper\<close> tell three kinds apart: a \<^verbatim>\<open>std::exception\<close> (with its
  \<^verbatim>\<open>what()\<close>), a \<^verbatim>\<open>std::string\<close>, and anything else.
\<close>

datatype exn = StdException string | StdString string | OtherException nat

text \<open>
  A task is an opaque \<^verbatim>\<open>std::function<void()>\<close>. What the pool can observe of
  a call is whether it returns or throws.
\<close>

datatype task = Returns | Throws exn

text \<open>
  The shared state of a \<^verbatim>\<open>std::promise<void>\<close>. A promise that is replaced
  while its state is not ready abandons it (the future then reports a broken
  promise).
\<close>

datatype promise_state = Pending | Value | Failed exn | Abandoned

text \<open>
  A \<^verbatim>\<open>std::future<void>\<close>: \<open>None\<close> is the default-constructed future without a
  shared state, \<open>Some h\<close> refers to the shared state number \<open>h\<close>.
\<close>

type_synonym future = "nat option"

datatype Strategy = SingleQueue | MultiQueue

text \<open>
  The program counter of a worker thread: the statement of
  \<^verbatim>\<open>loop_wrapper\<close>, \<^verbatim>\<open>loop\<close>, \<^verbatim>\<open>waitForWork\<close> or \<^verbatim>\<open>doWork\<close> that the
  thread executes next. Local variables that live across statements
  (\<^verbatim>\<open>i\<close> of \<^verbatim>\<open>worker_sq::doWork\<close>, \<^verbatim>\<open>err_p\<close> of \<^verbatim>\<open>loop_wrapper\<close>) are
  arguments of the constructor.
\<close>

datatype pc =
    WaitForWork
  | CheckTerminating
  | SQ_claim
  | SQ_test int
  | SQ_call int
  | MQ_test
  | MQ_call
  | Finish
  | Complete_clear
  | Complete_status
  | Resolve bool
  | LW_after "exn option"
  | LW_record "exn option"
  | LW_set
  | LW_check
  | Exited

record worker =
  worker_id :: int
  busy :: bool
  strategy :: Strategy
  it :: int
  pc :: pc

text \<open>
  What ends the whole process: an exception that leaves a thread function
  (\<^verbatim>\<open>std::terminate\<close>), or undefined behaviour (an access out of range).
\<close>

datatype fault = Uncaught exn | UndefinedBehaviour

record ThreadPool =
  m_errorHandling :: ErrorHandling
  m_size :: int
  m_clearMode :: ClearMode
  m_active :: int
  m_status :: Status
  m_dirty :: bool
  m_index :: int
  m_workload :: "task list"
  m_errors :: "exn list"
  m_result :: nat
  m_workers :: "worker list"
  promises :: "promise_state list"
  sLog :: "string list"
  claimed :: "(int \<times> int) list"
  executed :: "(int \<times> int) list"
  fault :: "fault option"

text \<open>
  \<open>m_result\<close> is the number of the shared state that the member
  \<^verbatim>\<open>std::promise<void> m_result\<close> owns, \<open>promises\<close> holds all shared states
  created so far. \<open>claimed\<close> and \<open>executed\<close> are history variables of the
  workload being processed: they record (worker id, task index) for every index
  obtained from \<^verbatim>\<open>m_index++\<close> and for every task called, in the order of the
  events; \<open>processWorkload\<close> starts them afresh.
\<close>

subsection \<open>Machine integers\<close>

text \<open>
  \<^verbatim>\<open>m_index\<close> and \<^verbatim>\<open>m_active\<close> are 32-bit \<^verbatim>\<open>int\<close> counters modified by
  atomic increment and decrement; an atomic counter wraps around in two's
  complement.
\<close>

definition wrap_int :: "int \<Rightarrow> int" where
  "wrap_int x = (x + 2147483648) mod 4294967296 - 2147483648"

definition int_range :: "int \<Rightarrow> bool" where
  "int_range x \<longleftrightarrow> - 2147483648 \<le> x \<and> x < 2147483648"

subsection \<open>Construction\<close>

text \<open>
  The members \<^verbatim>\<open>m_status\<close>, \<^verbatim>\<open>m_dirty\<close> and \<^verbatim>\<open>m_index\<close> are not initialised
  by the constructor; their initial values come from the class declaration in
  ThreadPool.h, which is not part of the sources, so they are parameters.
\<close>

record class_defaults =
  default_status :: Status
  default_dirty :: bool
  default_index :: int

datatype error = LengthError | AppendWhileProcessing

text \<open>
  ThreadPool.cpp, lines 23-27. \<^verbatim>\<open>m_workers.reserve(m_size)\<close> converts the
  \<^verbatim>\<open>int\<close> to \<^verbatim>\<open>size_t\<close>: a negative count exceeds \<^verbatim>\<open>max_size()\<close> and
  \<^verbatim>\<open>reserve\<close> throws \<^verbatim>\<open>std::length_error\<close>. Otherwise it only reserves
  capacity: the vector keeps its size, zero.
\<close>

definition ThreadPool_ctor ::
    "class_defaults \<Rightarrow> int \<Rightarrow> ClearMode \<Rightarrow> ErrorHandling \<Rightarrow> error + ThreadPool" where
  "ThreadPool_ctor d numThreads when mode =
     (if numThreads < 0 then Inl LengthError
      else Inr \<lparr> m_errorHandling = mode, m_size = numThreads, m_clearMode = when,
                 m_active = 0, m_status = default_status d, m_dirty = default_dirty d,
                 m_index = default_index d, m_workload = [], m_errors = [],
                 m_result = 0, m_workers = [], promises = [Pending], sLog = [],
                 claimed = [], executed = [], fault = None \<rparr>)"

subsection \<open>Operations of the pool\<close>

text \<open>ThreadPool.cpp, lines 109-113.\<close>

definition clearWorkload :: "ThreadPool \<Rightarrow> ThreadPool" where
  "clearWorkload p = p\<lparr> m_dirty := False, m_workload := [] \<rparr>"

text \<open>
  Lines 176-179 and 224-228: \<^verbatim>\<open>worker::prepare\<close> sets \<^verbatim>\<open>busy\<close>;
  \<^verbatim>\<open>worker_mq::prepare\<close> first sets the cursor to \<^verbatim>\<open>begin() + id\<close>. The cursor
  is modelled by its offset from \<^verbatim>\<open>m_workload.begin()\<close>.
\<close>

definition prepare :: "worker \<Rightarrow> worker" where
  "prepare w =
     (case strategy w of
        SingleQueue \<Rightarrow> w\<lparr> busy := True \<rparr>
      | MultiQueue \<Rightarrow> w\<lparr> it := worker_id w, busy := True \<rparr>)"

text \<open>
  Assigning a new promise to \<^verbatim>\<open>m_result\<close> (line 47) releases the old shared
  state; if that was not ready yet it is abandoned.
\<close>

definition abandon :: "nat \<Rightarrow> promise_state list \<Rightarrow> promise_state list" where
  "abandon h ps = (if h < length ps \<and> ps ! h = Pending then ps[h := Abandoned] else ps)"

text \<open>
  Lines 40-57. The loop of lines 53-54 indexes \<^verbatim>\<open>m_workers\<close> from 0 to
  \<^verbatim>\<open>m_size - 1\<close>; with fewer workers than \<^verbatim>\<open>m_size\<close> the access is out of
  range. \<^verbatim>\<open>notify_all\<close> has no effect on the state: a waiting worker is a
  worker whose next step re-evaluates the condition of \<^verbatim>\<open>waitForWork\<close>.
\<close>

definition processWorkload :: "ThreadPool \<Rightarrow> future \<times> ThreadPool" where
  "processWorkload p =
     (let p1 = (if m_clearMode p = AT_NEXT_WORKLOAD \<and> m_status p = READY \<and> m_dirty p
                then clearWorkload p else p)
      in if m_status p1 \<noteq> READY \<or> m_workload p1 = [] then (None, p1)
         else
           let h = length (promises p1);
               p2 = p1\<lparr> promises := abandon (m_result p1) (promises p1) @ [Pending],
                        m_result := h, m_dirty := True, m_active := m_size p1,
                        m_index := 0, m_status := PROCESSING,
                        claimed := [], executed := [] \<rparr>
           in if nat (m_size p2) \<le> length (m_workers p2)
              then (Some h,
                    p2\<lparr> m_workers :=
                          fold (\<lambda>i ws. ws[i := prepare (ws ! i)]) [0..<nat (m_size p2)]
                            (m_workers p2) \<rparr>)
              else (None, p2\<lparr> fault := Some UndefinedBehaviour \<rparr>))"

text \<open>Lines 59-75: both overloads (copy and move of the workload).\<close>

definition processWorkload_with :: "task list \<Rightarrow> ThreadPool \<Rightarrow> future \<times> ThreadPool" where
  "processWorkload_with workload p =
     (if m_status p \<noteq> READY then (None, p)
      else processWorkload (p\<lparr> m_workload := workload, m_dirty := False \<rparr>))"

text \<open>Lines 77-90: the accessors.\<close>

definition status :: "ThreadPool \<Rightarrow> Status" where
  "status p = m_status p"

definition size_pool :: "ThreadPool \<Rightarrow> int" where
  "size_pool p = m_size p"

definition taskErrors :: "ThreadPool \<Rightarrow> exn list" where
  "taskErrors p = m_errors p"

text \<open>
  Lines 99-107, \<^verbatim>\<open>operator<<\<close>. The result is the exception thrown, if any,
  and the pool after the call.
\<close>

definition operator_lshift :: "task \<Rightarrow> ThreadPool \<Rightarrow> error option \<times> ThreadPool" where
  "operator_lshift packaged_task p =
     (if m_status p = PROCESSING \<or> m_status p = ERROR then (Some AppendWhileProcessing, p)
      else
        let p1 = (if m_clearMode p = AT_NEXT_WORKLOAD \<and> m_dirty p
                  then clearWorkload p else p)
        in (None, p1\<lparr> m_workload := m_workload p1 @ [packaged_task] \<rparr>))"


subsection \<open>The worker threads\<close>

definition goto :: "nat \<Rightarrow> pc \<Rightarrow> ThreadPool \<Rightarrow> ThreadPool" where
  "goto k c p = p\<lparr> m_workers := (m_workers p)[k := (m_workers p ! k)\<lparr> pc := c \<rparr>] \<rparr>"

definition upd_worker :: "nat \<Rightarrow> (worker \<Rightarrow> worker) \<Rightarrow> ThreadPool \<Rightarrow> ThreadPool" where
  "upd_worker k f p = p\<lparr> m_workers := (m_workers p)[k := f (m_workers p ! k)] \<rparr>"

text \<open>
  An exception that leaves \<^verbatim>\<open>loop()\<close>. With \<^verbatim>\<open>ErrorHandling::NONE\<close>
  (lines 127-128) there is no handler between it and the thread function.
  Otherwise the handler of lines 136-140 stores it in \<^verbatim>\<open>err_p\<close>.
\<close>

definition raise_in_loop :: "nat \<Rightarrow> exn \<Rightarrow> ThreadPool \<Rightarrow> ThreadPool" where
  "raise_in_loop k e p =
     (if m_errorHandling p = NONE then p\<lparr> fault := Some (Uncaught e) \<rparr>
      else goto k (LW_after (Some e)) p)"

text \<open>Lines 92-97: the worker stays in \<^verbatim>\<open>waitForWork\<close> while the condition holds.\<close>

definition waitForWork :: "nat \<Rightarrow> ThreadPool \<Rightarrow> ThreadPool" where
  "waitForWork k p =
     (if \<not> busy (m_workers p ! k) \<and> status p \<noteq> TERMINATING then p
      else goto k CheckTerminating p)"

text \<open>
  Lines 186-188: \<^verbatim>\<open>loop\<close> returns when the pool terminates, to the caller
  \<^verbatim>\<open>loop_wrapper\<close> (line 128, which then returns, or line 134); otherwise
  \<^verbatim>\<open>doWork\<close> of the worker's strategy starts.
\<close>

definition checkTerminating :: "nat \<Rightarrow> ThreadPool \<Rightarrow> ThreadPool" where
  "checkTerminating k p =
     (if m_status p = TERMINATING
      then (if m_errorHandling p = NONE then goto k Exited p else goto k (LW_after None) p)
      else (case strategy (m_workers p ! k) of
              SingleQueue \<Rightarrow> goto k SQ_claim p
            | MultiQueue \<Rightarrow> goto k MQ_test p))"

text \<open>Lines 237 and 241: \<^verbatim>\<open>i = pool->m_index++\<close>, one atomic step.\<close>

definition sq_claim :: "nat \<Rightarrow> ThreadPool \<Rightarrow> ThreadPool" where
  "sq_claim k p =
     goto k (SQ_test (m_index p))
       (p\<lparr> m_index := wrap_int (m_index p + 1),
           claimed := claimed p @ [(worker_id (m_workers p ! k), m_index p)] \<rparr>)"

text \<open>
  Line 238. The comparison converts \<^verbatim>\<open>i\<close> to \<^verbatim>\<open>size_t\<close>: a negative \<^verbatim>\<open>i\<close>
  becomes larger than any size.
\<close>

definition sq_test :: "nat \<Rightarrow> int \<Rightarrow> ThreadPool \<Rightarrow> ThreadPool" where
  "sq_test k i p =
     (if 0 \<le> i \<and> i < int (length (m_workload p)) \<and> m_status p = PROCESSING
      then goto k (SQ_call i) p else goto k Finish p)"

text \<open>
  The call of the task at index \<open>j\<close> (lines 220 and 240), after which the worker
  continues at \<open>next\<close> unless the task throws.
\<close>

definition call_task :: "nat \<Rightarrow> int \<Rightarrow> pc \<Rightarrow> ThreadPool \<Rightarrow> ThreadPool" where
  "call_task k j next p =
     (if 0 \<le> j \<and> j < int (length (m_workload p)) then
        let p' = p\<lparr> executed := executed p @ [(worker_id (m_workers p ! k), j)] \<rparr>
        in (case m_workload p ! nat j of
              Returns \<Rightarrow> goto k next p'
            | Throws e \<Rightarrow> raise_in_loop k e p')
      else p\<lparr> fault := Some UndefinedBehaviour \<rparr>)"

text \<open>Line 216.\<close>

definition mq_test :: "nat \<Rightarrow> ThreadPool \<Rightarrow> ThreadPool" where
  "mq_test k p =
     (if it (m_workers p ! k) < int (length (m_workload p)) \<and> m_status p = PROCESSING
      then goto k MQ_call p else goto k Finish p)"

text \<open>Lines 218-220: the cursor is advanced before the task is called.\<close>

definition mq_call :: "nat \<Rightarrow> ThreadPool \<Rightarrow> ThreadPool" where
  "mq_call k p =
     (let w = it (m_workers p ! k)
      in call_task k w MQ_test (upd_worker k (\<lambda>x. x\<lparr> it := it x + m_size p \<rparr>) p))"

text \<open>Lines 189-191: \<^verbatim>\<open>busy = false\<close> and the atomic decrement.\<close>

definition finish :: "nat \<Rightarrow> ThreadPool \<Rightarrow> ThreadPool" where
  "finish k p =
     (let remaning = wrap_int (m_active p - 1);
          p' = upd_worker k (\<lambda>x. x\<lparr> busy := False \<rparr>) (p\<lparr> m_active := remaning \<rparr>)
      in if remaning = 0 then goto k Complete_clear p' else goto k WaitForWork p')"

text \<open>Lines 193-194.\<close>

definition complete_clear :: "nat \<Rightarrow> ThreadPool \<Rightarrow> ThreadPool" where
  "complete_clear k p =
     goto k Complete_status
       (if m_clearMode p = UPPON_COMPLETION then clearWorkload p else p)"

text \<open>Lines 195-197 and 200-202: both branches set the status to \<^verbatim>\<open>READY\<close>.\<close>

definition complete_status :: "nat \<Rightarrow> ThreadPool \<Rightarrow> ThreadPool" where
  "complete_status k p = goto k (Resolve (m_status p = ERROR)) (p\<lparr> m_status := READY \<rparr>)"

definition promise_already_satisfied :: exn where
  "promise_already_satisfied = StdException ''Promise already satisfied''"

text \<open>
  \<^verbatim>\<open>set_value\<close> and \<^verbatim>\<open>set_exception\<close> on \<^verbatim>\<open>m_result\<close>: they throw
  \<^verbatim>\<open>std::future_error\<close> when the shared state is already satisfied.
\<close>

definition set_result :: "nat \<Rightarrow> promise_state \<Rightarrow> ThreadPool \<Rightarrow> ThreadPool" where
  "set_result k v p =
     (if m_result p < length (promises p) \<and> promises p ! m_result p = Pending
      then goto k WaitForWork (p\<lparr> promises := (promises p)[m_result p := v] \<rparr>)
      else raise_in_loop k promise_already_satisfied p)"

text \<open>
  Lines 198 and 203. \<^verbatim>\<open>m_errors.front()\<close> of an empty vector is undefined
  behaviour.
\<close>

definition resolve :: "nat \<Rightarrow> bool \<Rightarrow> ThreadPool \<Rightarrow> ThreadPool" where
  "resolve k failed p =
     (if failed then
        (case m_errors p of
           [] \<Rightarrow> p\<lparr> fault := Some UndefinedBehaviour \<rparr>
         | e # _ \<Rightarrow> set_result k (Failed e) p)
      else set_result k Value p)"

text \<open>
  Lines 142-148. The recursive call of \<^verbatim>\<open>loop_wrapper\<close> starts \<^verbatim>\<open>loop\<close>
  again; when it returns, the caller returns as well. The growth of the call
  stack is not modelled.
\<close>

definition lw_after :: "nat \<Rightarrow> exn option \<Rightarrow> ThreadPool \<Rightarrow> ThreadPool" where
  "lw_after k err_p p =
     (if m_errorHandling p = IGNORE
      then (if status p = TERMINATING then goto k Exited p else goto k WaitForWork p)
      else goto k (LW_record err_p) p)"

text \<open>Lines 149-167: the three handlers differ in the message they log.\<close>

definition log_message :: "exn \<Rightarrow> string" where
  "log_message e =
     (case e of
        StdException what \<Rightarrow> ''A ThreadPool task generated an exception: '' @ what
      | StdString s \<Rightarrow> ''A ThreadPool task generated an exception: '' @ s
      | OtherException _ \<Rightarrow> ''A ThreadPool task generated an exception'')"

definition lw_record :: "nat \<Rightarrow> exn option \<Rightarrow> ThreadPool \<Rightarrow> ThreadPool" where
  "lw_record k err_p p =
     (case err_p of
        None \<Rightarrow> goto k LW_set p
      | Some e \<Rightarrow>
          goto k LW_set (p\<lparr> m_errors := m_errors p @ [e], sLog := sLog p @ [log_message e] \<rparr>))"

text \<open>Lines 168-169.\<close>

definition lw_set :: "nat \<Rightarrow> ThreadPool \<Rightarrow> ThreadPool" where
  "lw_set k p =
     goto k LW_check
       (if m_errorHandling p = TERMINATE then p\<lparr> m_status := TERMINATING \<rparr> else p)"

text \<open>Lines 170-172.\<close>

definition lw_check :: "nat \<Rightarrow> ThreadPool \<Rightarrow> ThreadPool" where
  "lw_check k p =
     (if status p = TERMINATING then goto k Exited p else goto k WaitForWork p)"

text \<open>
  One step of worker number \<open>k\<close>. Nothing runs after the process has ended.
\<close>

definition worker_step :: "nat \<Rightarrow> ThreadPool \<Rightarrow> ThreadPool" where
  "worker_step k p =
     (if fault p \<noteq> None \<or> length (m_workers p) \<le> k then p
      else
        (case pc (m_workers p ! k) of
           WaitForWork \<Rightarrow> waitForWork k p
         | CheckTerminating \<Rightarrow> checkTerminating k p
         | SQ_claim \<Rightarrow> sq_claim k p
         | SQ_test i \<Rightarrow> sq_test k i p
         | SQ_call i \<Rightarrow> call_task k i SQ_claim p
         | MQ_test \<Rightarrow> mq_test k p
         | MQ_call \<Rightarrow> mq_call k p
         | Finish \<Rightarrow> finish k p
         | Complete_clear \<Rightarrow> complete_clear k p
         | Complete_status \<Rightarrow> complete_status k p
         | Resolve failed \<Rightarrow> resolve k failed p
         | LW_after err_p \<Rightarrow> lw_after k err_p p
         | LW_record err_p \<Rightarrow> lw_record k err_p p
         | LW_set \<Rightarrow> lw_set k p
         | LW_check \<Rightarrow> lw_check k p
         | Exited \<Rightarrow> p))"

text \<open>A schedule is the order in which the workers take their steps.\<close>

definition run :: "nat list \<Rightarrow> ThreadPool \<Rightarrow> ThreadPool" where
  "run sched p = fold worker_step sched p"




subsection \<open>States of a started pool\<close>

text \<open>
  Modelled from the spec: \<^verbatim>\<open>start<T>()\<close> is defined in ThreadPool.h, which is
  not part of the sources (lines 36-38 only instantiate it). The spec says of the
  allocation: "allocates threadCount Workers of the configured distribution
  strategy; initial status READY". A new worker (lines 115-118) has its id and a
  thread that enters \<^verbatim>\<open>loop_wrapper\<close>, whose first statement is the wait of
  \<^verbatim>\<open>waitForWork\<close>.
\<close>

definition new_worker :: "Strategy \<Rightarrow> int \<Rightarrow> worker" where
  "new_worker T k = \<lparr> worker_id = k, busy = False, strategy = T, it = 0, pc = WaitForWork \<rparr>"

definition start :: "Strategy \<Rightarrow> ThreadPool \<Rightarrow> ThreadPool" where
  "start T p =
     p\<lparr> m_workers := map (\<lambda>k. new_worker T (int k)) [0..<nat (m_size p)],
        m_status := READY \<rparr>"




subsection \<open>Example pools\<close>

definition header_defaults :: class_defaults where
  "header_defaults = \<lparr> default_status = READY, default_dirty = False, default_index = 0 \<rparr>"

definition example_pool ::
    "Strategy \<Rightarrow> int \<Rightarrow> ClearMode \<Rightarrow> ErrorHandling \<Rightarrow> task list \<Rightarrow> ThreadPool" where
  "example_pool T n when mode workload =
     (start T (projr (ThreadPool_ctor header_defaults n when mode)))\<lparr> m_workload := workload \<rparr>"

subsection \<open>Invariants of a workload being processed\<close>

text \<open>The number of workers that satisfy a predicate (an \<^verbatim>\<open>int\<close>, as \<^verbatim>\<open>m_active\<close>).\<close>

definition cnt :: "(worker \<Rightarrow> bool) \<Rightarrow> worker list \<Rightarrow> int" where
  "cnt P ws = int (length (filter P ws))"

text \<open>Statements inside \<^verbatim>\<open>doWork\<close>, or reached with a captured exception.\<close>

fun needs_busy :: "pc \<Rightarrow> bool" where
  "needs_busy SQ_claim = True"
| "needs_busy (SQ_test _) = True"
| "needs_busy (SQ_call _) = True"
| "needs_busy MQ_test = True"
| "needs_busy MQ_call = True"
| "needs_busy Finish = True"
| "needs_busy (LW_after (Some _)) = True"
| "needs_busy (LW_record (Some _)) = True"
| "needs_busy _ = False"

text \<open>Statements on the way out of \<^verbatim>\<open>loop\<close> and \<^verbatim>\<open>loop_wrapper\<close>.\<close>

fun leaving :: "pc \<Rightarrow> bool" where
  "leaving CheckTerminating = True"
| "leaving (LW_after _) = True"
| "leaving (LW_record _) = True"
| "leaving LW_set = True"
| "leaving LW_check = True"
| "leaving Exited = True"
| "leaving _ = False"

text \<open>The completion bookkeeping of lines 193-204.\<close>

fun in_completion :: "pc \<Rightarrow> bool" where
  "in_completion Complete_clear = True"
| "in_completion Complete_status = True"
| "in_completion (Resolve _) = True"
| "in_completion _ = False"

definition completing :: "worker \<Rightarrow> bool" where
  "completing w \<longleftrightarrow> in_completion (pc w)"

definition clearing :: "worker \<Rightarrow> bool" where
  "clearing w \<longleftrightarrow> pc w = Complete_clear"

text \<open>
  A worker that ended, or is about to end, its thread without having counted
  itself out of the workload.
\<close>

definition dead :: "worker \<Rightarrow> bool" where
  "dead w \<longleftrightarrow> busy w \<and> (pc w = LW_check \<or> pc w = Exited)"

text \<open>What holds of every worker, given the status of the pool.\<close>

definition worker_inv :: "Status \<Rightarrow> worker \<Rightarrow> bool" where
  "worker_inv st w \<longleftrightarrow>
     (needs_busy (pc w) \<longrightarrow> busy w) \<and>
     (leaving (pc w) \<longrightarrow> \<not> busy w \<longrightarrow> st = TERMINATING) \<and>
     pc w \<noteq> Resolve True \<and>
     (pc w = Resolve False \<longrightarrow> st = READY) \<and>
     (st = READY \<longrightarrow> pc w \<noteq> Complete_clear \<and> pc w \<noteq> Complete_status)"

text \<open>
  The invariant of the states reached by the workers from the state that
  \<open>processWorkload\<close> leaves, for the workload \<open>wl0\<close> and the promise \<open>h\<close>.
\<close>

definition pool_inv :: "task list \<Rightarrow> nat \<Rightarrow> ThreadPool \<Rightarrow> bool" where
  "pool_inv wl0 h s \<longleftrightarrow>
     int (length (m_workers s)) = m_size s \<and> m_size s < 2147483648 \<and>
     m_result s = h \<and> h < length (promises s) \<and>
     m_active s = cnt busy (m_workers s) \<and>
     m_status s \<noteq> ERROR \<and>
     (\<forall>w\<in>set (m_workers s). worker_inv (m_status s) w) \<and>
     cnt completing (m_workers s) \<le> 1 \<and>
     (0 < cnt completing (m_workers s) \<longrightarrow> cnt busy (m_workers s) = 0) \<and>
     (m_status s = TERMINATING \<longrightarrow> 0 < cnt dead (m_workers s)) \<and>
     (m_status s = READY \<longrightarrow> cnt busy (m_workers s) = 0) \<and>
     (if cnt busy (m_workers s) = 0 \<and> cnt completing (m_workers s) = 0
      then promises s ! h = Value \<and> m_status s = READY
      else promises s ! h = Pending) \<and>
     (0 < cnt busy (m_workers s) \<or> 0 < cnt clearing (m_workers s)
        \<longrightarrow> m_workload s = wl0)"

subsection \<open>The error list between two states\<close>

text \<open>
  From \<open>p\<close> to \<open>p'\<close> the error list has only grown at its end, and every promise
  that holds a failure in \<open>p'\<close> either held it already in \<open>p\<close> or holds the front
  of the error list.
\<close>

definition errors_kept :: "ThreadPool \<Rightarrow> ThreadPool \<Rightarrow> bool" where
  "errors_kept p p' \<longleftrightarrow>
     prefix (m_errors p) (m_errors p') \<and>
     (\<forall>h e. h < length (promises p') \<and> promises p' ! h = Failed e \<longrightarrow>
        (h < length (promises p) \<and> promises p ! h = Failed e) \<or>
        (m_errors p' \<noteq> [] \<and> e = hd (m_errors p')))"

subsection \<open>A workload processed without a worker leaving its loop\<close>

text \<open>
  What holds of the program counter of a worker while no failure ends a thread:
  the handler of \<^verbatim>\<open>loop_wrapper\<close> is entered under \<^verbatim>\<open>IGNORE\<close> only, its
  statements after line 148 are not reached, and a task is called inside the
  workload. \<open>M\<close> is the size of the workload, \<open>c\<close> the cursor of the worker.
\<close>

fun pc_calm :: "ErrorHandling \<Rightarrow> int \<Rightarrow> int \<Rightarrow> pc \<Rightarrow> bool" where
  "pc_calm mode M c (LW_after _) = (mode = IGNORE)"
| "pc_calm mode M c (LW_record _) = False"
| "pc_calm mode M c LW_set = False"
| "pc_calm mode M c LW_check = False"
| "pc_calm mode M c Exited = False"
| "pc_calm mode M c (SQ_call i) = (0 \<le> i \<and> i < M)"
| "pc_calm mode M c MQ_call = (0 \<le> c \<and> c < M)"
| "pc_calm mode M c MQ_test = (0 \<le> c)"
| "pc_calm mode M c _ = True"

definition worker_calm :: "ErrorHandling \<Rightarrow> int \<Rightarrow> worker \<Rightarrow> bool" where
  "worker_calm mode M w \<longleftrightarrow>
     pc_calm mode M (it w) (pc w) \<and> (strategy w = MultiQueue \<longrightarrow> 0 \<le> it w)"

definition calm :: "ThreadPool \<Rightarrow> ThreadPool \<Rightarrow> bool" where
  "calm s0 s \<longleftrightarrow>
     fault s = None \<and> m_status s \<noteq> TERMINATING \<and>
     m_errors s = m_errors s0 \<and> sLog s = sLog s0 \<and>
     m_errorHandling s = m_errorHandling s0 \<and>
     (\<forall>w\<in>set (m_workers s).
        worker_calm (m_errorHandling s0) (int (length (m_workload s0))) w)"


text \<open>What the steps of the workers never change.\<close>

definition same_config :: "ThreadPool \<Rightarrow> ThreadPool \<Rightarrow> bool" where
  "same_config s0 s \<longleftrightarrow>
     m_errorHandling s = m_errorHandling s0 \<and> m_size s = m_size s0 \<and>
     m_clearMode s = m_clearMode s0 \<and>
     map worker_id (m_workers s) = map worker_id (m_workers s0) \<and>
     map strategy (m_workers s) = map strategy (m_workers s0)"

subsection \<open>Failures under TERMINATE\<close>

text \<open>
  The exception \<open>e\<close> that a task threw in worker \<open>w\<close> is being handled by
  \<^verbatim>\<open>loop_wrapper\<close>: it is still held in \<^verbatim>\<open>err_p\<close>, or it has been appended to
  the error list and logged.
\<close>

definition handled :: "exn \<Rightarrow> worker \<Rightarrow> ThreadPool \<Rightarrow> bool" where
  "handled e w s \<longleftrightarrow>
     pc w = LW_after (Some e) \<or> pc w = LW_record (Some e) \<or>
     ((pc w = LW_set \<or> pc w = LW_check \<or> pc w = Exited) \<and>
      e \<in> set (m_errors s) \<and> log_message e \<in> set (sLog s))"

definition term_inv :: "task list \<Rightarrow> ThreadPool \<Rightarrow> bool" where
  "term_inv wl0 s \<longleftrightarrow>
     m_errorHandling s = TERMINATE \<and>
     (\<forall>w\<in>set (m_workers s). pc w = LW_check \<or> pc w = Exited \<longrightarrow> m_status s = TERMINATING) \<and>
     (\<forall>x\<in>set (executed s).
        0 \<le> fst x \<and> nat (fst x) < length (m_workers s) \<and>
        0 \<le> snd x \<and> nat (snd x) < length wl0 \<and>
        (\<forall>e. wl0 ! nat (snd x) = Throws e \<longrightarrow> handled e (m_workers s ! nat (fst x)) s))"

subsection \<open>The two distribution strategies\<close>











text \<open>
  A pool of one worker after its first workload, of one task, has been
  processed to the end.
\<close>

definition finished_pool :: ThreadPool where
  "finished_pool =
     run [0, 0, 0, 0, 0, 0, 0, 0, 0, 0, 0]
       (snd (processWorkload (example_pool SingleQueue 1 AT_NEXT_WORKLOAD NONE [Returns])))"

text \<open>A pool of two workers that is processing a workload of three tasks.\<close>

definition processing_pool :: ThreadPool where
  "processing_pool =
     snd (processWorkload
            (example_pool SingleQueue 2 AT_NEXT_WORKLOAD NONE [Returns, Returns, Returns]))"










section \<open>Properties\<close>

subsection \<open>Counting workers\<close>

lemma filter_update_count:
  "k < length xs \<Longrightarrow>
   int (length (filter P (xs[k := x]))) =
     int (length (filter P xs)) - of_bool (P (xs ! k)) + of_bool (P x)"
proof (induction xs arbitrary: k)
  case Nil
  then show ?case by simp
next
  case (Cons a xs)
  then show ?case by (cases k) auto
qed

lemma cnt_update:
  "k < length ws \<Longrightarrow> cnt P (ws[k := w]) = cnt P ws - of_bool (P (ws ! k)) + of_bool (P w)"
  by (simp add: cnt_def filter_update_count)

lemma cnt_nonneg: "0 \<le> cnt P ws"
  by (simp add: cnt_def)

lemma cnt_le: "cnt P ws \<le> int (length ws)"
  by (simp add: cnt_def)

lemma cnt_zero_iff: "cnt P ws = 0 \<longleftrightarrow> (\<forall>w\<in>set ws. \<not> P w)"
  by (simp add: cnt_def filter_empty_conv)

lemma cnt_pos: "k < length ws \<Longrightarrow> P (ws ! k) \<Longrightarrow> 0 < cnt P ws"
  using cnt_zero_iff [of P ws] cnt_nonneg [of P ws] nth_mem [of k ws] by force

lemma cnt_mono: "(\<And>w. P w \<Longrightarrow> Q w) \<Longrightarrow> cnt P ws \<le> cnt Q ws"
  unfolding cnt_def by (induction ws) auto

lemma cnt_dead_le: "cnt dead ws \<le> cnt busy ws"
  by (rule cnt_mono) (simp add: dead_def)

lemma cnt_clearing_le: "cnt clearing ws \<le> cnt completing ws"
  by (rule cnt_mono) (simp add: clearing_def completing_def)

lemma ball_updateI:
  "\<forall>x\<in>set ws. P x \<Longrightarrow> P w \<Longrightarrow> \<forall>x\<in>set (ws[k := w]). P x"
  using set_update_subset_insert [of ws k w] by auto

lemma wrap_int_id: "int_range x \<Longrightarrow> wrap_int x = x"
  by (simp add: wrap_int_def int_range_def)


lemma pool_invD:
  assumes "pool_inv wl0 h s"
  shows "int (length (m_workers s)) = m_size s"
    and "m_size s < 2147483648"
    and "m_result s = h"
    and "h < length (promises s)"
    and "m_active s = cnt busy (m_workers s)"
    and "m_status s \<noteq> ERROR"
    and "\<forall>w\<in>set (m_workers s). worker_inv (m_status s) w"
    and "cnt completing (m_workers s) \<le> 1"
    and "0 < cnt completing (m_workers s) \<longrightarrow> cnt busy (m_workers s) = 0"
    and "m_status s = TERMINATING \<longrightarrow> 0 < cnt dead (m_workers s)"
    and "m_status s = READY \<longrightarrow> cnt busy (m_workers s) = 0"
    and "if cnt busy (m_workers s) = 0 \<and> cnt completing (m_workers s) = 0
         then promises s ! h = Value \<and> m_status s = READY
         else promises s ! h = Pending"
    and "0 < cnt busy (m_workers s) \<or> 0 < cnt clearing (m_workers s)
         \<longrightarrow> m_workload s = wl0"
  using assms unfolding pool_inv_def by blast+

lemma pool_invI:
  assumes "int (length (m_workers s)) = m_size s"
    and "m_size s < 2147483648"
    and "m_result s = h"
    and "h < length (promises s)"
    and "m_active s = cnt busy (m_workers s)"
    and "m_status s \<noteq> ERROR"
    and "\<forall>w\<in>set (m_workers s). worker_inv (m_status s) w"
    and "cnt completing (m_workers s) \<le> 1"
    and "0 < cnt completing (m_workers s) \<longrightarrow> cnt busy (m_workers s) = 0"
    and "m_status s = TERMINATING \<longrightarrow> 0 < cnt dead (m_workers s)"
    and "m_status s = READY \<longrightarrow> cnt busy (m_workers s) = 0"
    and "if cnt busy (m_workers s) = 0 \<and> cnt completing (m_workers s) = 0
         then promises s ! h = Value \<and> m_status s = READY
         else promises s ! h = Pending"
    and "0 < cnt busy (m_workers s) \<or> 0 < cnt clearing (m_workers s)
         \<longrightarrow> m_workload s = wl0"
  shows "pool_inv wl0 h s"
  using assms unfolding pool_inv_def by blast


lemma cnt_unique:
  assumes "cnt P ws \<le> 1" and "k < length ws" and "P (ws ! k)"
    and "j < length ws" and "j \<noteq> k"
  shows "\<not> P (ws ! j)"
proof
  assume "P (ws ! j)"
  with assms have "{j, k} \<subseteq> {i. i < length ws \<and> P (ws ! i)}" by simp
  then have "card {j, k} \<le> card {i. i < length ws \<and> P (ws ! i)}"
    by (intro card_mono) simp_all
  with assms show False
    by (simp add: cnt_def length_filter_conv_card)
qed

lemma ball_update_nthI:
  assumes "k < length ws" and "\<And>j. j < length ws \<Longrightarrow> j \<noteq> k \<Longrightarrow> P (ws ! j)" and "P w"
  shows "\<forall>x\<in>set (ws[k := w]). P x"
proof
  fix x assume "x \<in> set (ws[k := w])"
  then obtain j where "j < length ws" "x = ws[k := w] ! j"
    by (auto simp: in_set_conv_nth)
  with assms show "P x" by (cases "j = k") simp_all
qed

lemma pool_inv_frame [simp]:
  "pool_inv wl0 h (m_index_update f1 s) = pool_inv wl0 h s"
  "pool_inv wl0 h (claimed_update f2 s) = pool_inv wl0 h s"
  "pool_inv wl0 h (executed_update f3 s) = pool_inv wl0 h s"
  "pool_inv wl0 h (fault_update f4 s) = pool_inv wl0 h s"
  "pool_inv wl0 h (m_errors_update f5 s) = pool_inv wl0 h s"
  "pool_inv wl0 h (sLog_update f6 s) = pool_inv wl0 h s"
  "pool_inv wl0 h (m_dirty_update f7 s) = pool_inv wl0 h s"
  by (simp_all add: pool_inv_def)

text \<open>A step that changes neither \<open>busy\<close> of worker k nor any member of the pool.\<close>

lemma pool_inv_move:
  assumes inv: "pool_inv wl0 h s" and k: "k < length (m_workers s)"
    and b: "busy w' = busy (m_workers s ! k)"
    and nb: "needs_busy (pc w') \<Longrightarrow> busy (m_workers s ! k)"
    and lv: "leaving (pc w') \<Longrightarrow> \<not> busy (m_workers s ! k) \<Longrightarrow> m_status s = TERMINATING"
    and nc: "\<not> in_completion (pc w')" "\<not> in_completion (pc (m_workers s ! k))"
    and wit: "m_status s = TERMINATING \<Longrightarrow> dead (m_workers s ! k) \<Longrightarrow>
              pc w' = LW_check \<or> pc w' = Exited"
  shows "pool_inv wl0 h (s\<lparr> m_workers := (m_workers s)[k := w'] \<rparr>)"
proof -
  let ?ws = "m_workers s"
  let ?w = "?ws ! k"
  let ?s' = "s\<lparr> m_workers := ?ws[k := w'] \<rparr>"
  note I = pool_invD [OF inv]
  have ws': "m_workers ?s' = ?ws[k := w']" by simp
  have other: "m_size ?s' = m_size s" "m_result ?s' = m_result s"
    "promises ?s' = promises s" "m_active ?s' = m_active s"
    "m_status ?s' = m_status s" "m_workload ?s' = m_workload s"
    by simp_all
  have mem: "?w \<in> set ?ws" using k by simp
  have cb: "cnt busy (?ws[k := w']) = cnt busy ?ws"
    using k b by (simp add: cnt_update)
  have cc: "cnt completing (?ws[k := w']) = cnt completing ?ws"
    using k nc by (simp add: cnt_update completing_def)
  have ccl: "cnt clearing (?ws[k := w']) = cnt clearing ?ws"
    using k nc by (auto simp add: cnt_update clearing_def)
  have cd: "m_status s = TERMINATING \<Longrightarrow> cnt dead ?ws \<le> cnt dead (?ws[k := w'])"
    using k wit b by (auto simp add: cnt_update dead_def)
  have "worker_inv (m_status s) ?w"
    using I(7) mem by blast
  then have wi: "worker_inv (m_status s) w'"
    using nb lv nc b by (auto simp: worker_inv_def)
  have all: "\<forall>x\<in>set (?ws[k := w']). worker_inv (m_status s) x"
    using I(7) wi by (rule ball_updateI)
  show ?thesis
  proof (rule pool_invI; (unfold ws' other cb cc ccl)?)
    show "m_status s = TERMINATING \<longrightarrow> 0 < cnt dead (?ws[k := w'])"
      using I(10) cd by force
  qed (use I all in \<open>simp_all\<close>)
qed

lemma pool_inv_goto:
  assumes inv: "pool_inv wl0 h s" and k: "k < length (m_workers s)"
    and nb: "needs_busy c \<Longrightarrow> busy (m_workers s ! k)"
    and lv: "leaving c \<Longrightarrow> \<not> busy (m_workers s ! k) \<Longrightarrow> m_status s = TERMINATING"
    and nc: "\<not> in_completion c" "\<not> in_completion (pc (m_workers s ! k))"
    and wit: "m_status s = TERMINATING \<Longrightarrow> dead (m_workers s ! k) \<Longrightarrow> c = LW_check \<or> c = Exited"
  shows "pool_inv wl0 h (goto k c s)"
  unfolding goto_def
  by (rule pool_inv_move [OF inv k]) (use nb lv nc wit in simp_all)

lemma worker_invD:
  assumes "pool_inv wl0 h s" and "k < length (m_workers s)"
  shows "worker_inv (m_status s) (m_workers s ! k)"
  using pool_invD(7) [OF assms(1)] assms(2) by simp

lemma inv_waitForWork:
  assumes "pool_inv wl0 h s" and "k < length (m_workers s)"
    and "pc (m_workers s ! k) = WaitForWork"
  shows "pool_inv wl0 h (waitForWork k s)"
  unfolding waitForWork_def status_def
  using assms by (auto intro!: pool_inv_goto simp: dead_def)

lemma inv_checkTerminating:
  assumes "pool_inv wl0 h s" and "k < length (m_workers s)"
    and "pc (m_workers s ! k) = CheckTerminating"
  shows "pool_inv wl0 h (checkTerminating k s)"
  unfolding checkTerminating_def
  using assms worker_invD [OF assms(1,2)]
  by (auto intro!: pool_inv_goto simp: dead_def worker_inv_def split: Strategy.split)

lemma inv_sq_claim:
  assumes "pool_inv wl0 h s" and "k < length (m_workers s)"
    and "pc (m_workers s ! k) = SQ_claim"
  shows "pool_inv wl0 h (sq_claim k s)"
  unfolding sq_claim_def
  using assms worker_invD [OF assms(1,2)]
  by (auto intro!: pool_inv_goto simp: dead_def worker_inv_def)

lemma inv_sq_test:
  assumes "pool_inv wl0 h s" and "k < length (m_workers s)"
    and "pc (m_workers s ! k) = SQ_test i"
  shows "pool_inv wl0 h (sq_test k i s)"
  unfolding sq_test_def
  using assms worker_invD [OF assms(1,2)]
  by (auto intro!: pool_inv_goto simp: dead_def worker_inv_def)

lemma inv_mq_test:
  assumes "pool_inv wl0 h s" and "k < length (m_workers s)"
    and "pc (m_workers s ! k) = MQ_test"
  shows "pool_inv wl0 h (mq_test k s)"
  unfolding mq_test_def
  using assms worker_invD [OF assms(1,2)]
  by (auto intro!: pool_inv_goto simp: dead_def worker_inv_def)

lemma inv_call_task:
  assumes inv: "pool_inv wl0 h s" and k: "k < length (m_workers s)"
    and pc: "pc (m_workers s ! k) = SQ_call i \<or> pc (m_workers s ! k) = MQ_call"
    and nx: "next = SQ_claim \<or> next = MQ_test"
  shows "pool_inv wl0 h (call_task k j next s)"
proof -
  let ?s' = "s\<lparr> executed := executed s @ [(worker_id (m_workers s ! k), j)] \<rparr>"
  have b: "busy (m_workers s ! k)" and nd: "\<not> dead (m_workers s ! k)"
    and nc: "\<not> in_completion (pc (m_workers s ! k))"
    using worker_invD [OF inv k] pc by (auto simp: worker_inv_def dead_def)
  have inv': "pool_inv wl0 h ?s'" using inv by simp
  have go: "pool_inv wl0 h (goto k c ?s')" if "\<not> in_completion c" for c
    using inv' k b nd nc that by (intro pool_inv_goto) simp_all
  show ?thesis
    unfolding call_task_def raise_in_loop_def Let_def
    using inv nx by (auto split: task.split intro!: go)
qed

lemma inv_mq_call:
  assumes "pool_inv wl0 h s" and "k < length (m_workers s)"
    and "pc (m_workers s ! k) = MQ_call"
  shows "pool_inv wl0 h (mq_call k s)"
proof -
  let ?s1 = "upd_worker k (\<lambda>x. x\<lparr> it := it x + m_size s \<rparr>) s"
  have "pool_inv wl0 h ?s1"
    unfolding upd_worker_def
    using assms worker_invD [OF assms(1,2)]
    by (intro pool_inv_move) (auto simp: dead_def worker_inv_def)
  moreover have "k < length (m_workers ?s1)" "pc (m_workers ?s1 ! k) = MQ_call"
    using assms by (simp_all add: upd_worker_def)
  ultimately show ?thesis
    unfolding mq_call_def Let_def by (intro inv_call_task) simp_all
qed

lemma inv_lw_after:
  assumes "pool_inv wl0 h s" and "k < length (m_workers s)"
    and "pc (m_workers s ! k) = LW_after err_p"
  shows "pool_inv wl0 h (lw_after k err_p s)"
  unfolding lw_after_def status_def
  using assms worker_invD [OF assms(1,2)]
  by (cases err_p) (auto intro!: pool_inv_goto simp: dead_def worker_inv_def)

lemma inv_lw_record:
  assumes "pool_inv wl0 h s" and "k < length (m_workers s)"
    and "pc (m_workers s ! k) = LW_record err_p"
  shows "pool_inv wl0 h (lw_record k err_p s)"
  unfolding lw_record_def
  using assms worker_invD [OF assms(1,2)]
  by (cases err_p) (auto intro!: pool_inv_goto simp: dead_def worker_inv_def)

lemma inv_lw_check:
  assumes "pool_inv wl0 h s" and "k < length (m_workers s)"
    and "pc (m_workers s ! k) = LW_check"
  shows "pool_inv wl0 h (lw_check k s)"
  unfolding lw_check_def status_def
  using assms worker_invD [OF assms(1,2)]
  by (auto intro!: pool_inv_goto simp: dead_def worker_inv_def)

subsection \<open>The invariant is kept by every step of a worker\<close>

lemma inv_finish:
  assumes inv: "pool_inv wl0 h s" and k: "k < length (m_workers s)"
    and pc: "pc (m_workers s ! k) = Finish"
  shows "pool_inv wl0 h (finish k s)"
proof -
  let ?ws = "m_workers s"
  let ?w = "?ws ! k"
  define r where "r = m_active s - 1"
  define c where "c = (if r = 0 then Complete_clear else WaitForWork)"
  define ws' where "ws' = ?ws[k := ?w\<lparr> busy := False, pc := c \<rparr>]"
  note I = pool_invD [OF inv]
  have wi: "worker_inv (m_status s) ?w" by (rule worker_invD [OF inv k])
  have b: "busy ?w" using wi pc by (simp add: worker_inv_def)
  have pos: "0 < cnt busy ?ws" using k b by (rule cnt_pos)
  have le: "cnt busy ?ws \<le> m_size s" using cnt_le [of busy ?ws] I(1) by simp
  have wr: "wrap_int (m_active s - 1) = r"
    unfolding r_def using pos le I(2,5) by (intro wrap_int_id) (simp add: int_range_def)
  have nr: "m_status s \<noteq> READY" using I(11) pos by auto
  have cz: "cnt completing ?ws = 0" using I(9) pos cnt_nonneg [of completing ?ws] by force
  have clz: "cnt clearing ?ws = 0"
    using cz cnt_clearing_le [of ?ws] cnt_nonneg [of clearing ?ws] by simp
  have s': "finish k s = s\<lparr> m_active := r, m_workers := ws' \<rparr>"
    using k by (simp add: finish_def Let_def wr goto_def upd_worker_def c_def ws'_def)
  have len: "length ws' = length ?ws" by (simp add: ws'_def)
  have cb: "cnt busy ws' = r"
    using k b I(5) by (simp add: cnt_update ws'_def r_def)
  have cc: "cnt completing ws' = (if r = 0 then 1 else 0)"
    using k pc cz by (simp add: cnt_update completing_def ws'_def c_def)
  have ccl: "cnt clearing ws' = (if r = 0 then 1 else 0)"
    using k pc clz by (simp add: cnt_update clearing_def ws'_def c_def)
  have cd: "cnt dead ws' = cnt dead ?ws"
    using k pc by (simp add: cnt_update dead_def ws'_def)
  have wi': "worker_inv (m_status s) (?w\<lparr> busy := False, pc := c \<rparr>)"
    using nr by (simp add: worker_inv_def c_def)
  have all: "\<forall>x\<in>set ws'. worker_inv (m_status s) x"
    unfolding ws'_def using I(7) wi' by (rule ball_updateI)
  have wl: "m_workload s = wl0" using I(13) pos by simp
  have pend: "promises s ! h = Pending" using I(12) pos by auto
  show ?thesis
    unfolding s'
    by (rule pool_invI) (use I(1-4,6,10) all wl nr pend len in \<open>simp_all add: cb cc ccl cd\<close>)
qed


lemma completing_facts:
  assumes inv: "pool_inv wl0 h s" and k: "k < length (m_workers s)"
    and c: "in_completion (pc (m_workers s ! k))"
  shows "cnt completing (m_workers s) = 1" and "cnt busy (m_workers s) = 0"
    and "promises s ! h = Pending" and "m_status s \<noteq> TERMINATING"
    and "\<And>j. j < length (m_workers s) \<Longrightarrow> j \<noteq> k \<Longrightarrow>
           \<not> in_completion (pc (m_workers s ! j)) \<and> \<not> busy (m_workers s ! j) \<and>
           \<not> leaving (pc (m_workers s ! j)) \<and> \<not> needs_busy (pc (m_workers s ! j))"
proof -
  note I = pool_invD [OF inv]
  have "0 < cnt completing (m_workers s)"
    using k c by (intro cnt_pos [of k]) (simp_all add: completing_def)
  then show one: "cnt completing (m_workers s) = 1" using I(8) by simp
  then show bz: "cnt busy (m_workers s) = 0" using I(9) by simp
  show "promises s ! h = Pending" using I(12) one by simp
  show nt: "m_status s \<noteq> TERMINATING"
    using I(10) bz cnt_dead_le [of "m_workers s"] by auto
  fix j assume j: "j < length (m_workers s)" "j \<noteq> k"
  have "\<not> completing (m_workers s ! j)"
    using I(8) k c j by (intro cnt_unique [of completing _ k]) (simp_all add: completing_def)
  moreover have nb: "\<not> busy (m_workers s ! j)"
    using bz j by (simp add: cnt_zero_iff)
  moreover have "worker_inv (m_status s) (m_workers s ! j)"
    by (rule worker_invD [OF inv j(1)])
  ultimately show "\<not> in_completion (pc (m_workers s ! j)) \<and> \<not> busy (m_workers s ! j) \<and>
           \<not> leaving (pc (m_workers s ! j)) \<and> \<not> needs_busy (pc (m_workers s ! j))"
    using nt by (auto simp: completing_def worker_inv_def)
qed

lemma inv_complete_clear:
  assumes inv: "pool_inv wl0 h s" and k: "k < length (m_workers s)"
    and pc: "pc (m_workers s ! k) = Complete_clear"
  shows "pool_inv wl0 h (complete_clear k s)"
proof -
  let ?ws = "m_workers s"
  let ?w = "?ws ! k"
  define wl where "wl = (if m_clearMode s = UPPON_COMPLETION then [] else m_workload s)"
  define ws' where "ws' = ?ws[k := ?w\<lparr> pc := Complete_status \<rparr>]"
  note I = pool_invD [OF inv]
  note C = completing_facts [OF inv k, unfolded pc, simplified]
  have wi: "worker_inv (m_status s) ?w" by (rule worker_invD [OF inv k])
  have nr: "m_status s \<noteq> READY" using wi pc by (simp add: worker_inv_def)
  have s': "pool_inv wl0 h (complete_clear k s) =
            pool_inv wl0 h (s\<lparr> m_workload := wl, m_workers := ws' \<rparr>)"
    by (simp add: complete_clear_def goto_def clearWorkload_def wl_def ws'_def pool_inv_def)
  have len: "length ws' = length ?ws" by (simp add: ws'_def)
  have cb: "cnt busy ws' = 0"
    using k C(2) by (simp add: cnt_update ws'_def)
  have cc: "cnt completing ws' = 1"
    using k pc C(1) by (simp add: cnt_update completing_def ws'_def)
  have "cnt clearing ?ws = 1"
    using cnt_pos [of k ?ws clearing] k pc cnt_clearing_le [of ?ws] C(1)
    by (simp add: clearing_def)
  then have ccl: "cnt clearing ws' = 0"
    using k pc by (simp add: cnt_update clearing_def ws'_def)
  have wi': "worker_inv (m_status s) (?w\<lparr> pc := Complete_status \<rparr>)"
    using nr wi by (simp add: worker_inv_def)
  have all: "\<forall>x\<in>set ws'. worker_inv (m_status s) x"
    unfolding ws'_def using I(7) wi' by (rule ball_updateI)
  show ?thesis
    unfolding s'
    by (rule pool_invI) (use I(1-6) C(2,3,4) all nr len in \<open>simp_all add: cb cc ccl\<close>)
qed

lemma inv_complete_status:
  assumes inv: "pool_inv wl0 h s" and k: "k < length (m_workers s)"
    and pc: "pc (m_workers s ! k) = Complete_status"
  shows "pool_inv wl0 h (complete_status k s)"
proof -
  let ?ws = "m_workers s"
  let ?w = "?ws ! k"
  define ws' where "ws' = ?ws[k := ?w\<lparr> pc := Resolve False \<rparr>]"
  note I = pool_invD [OF inv]
  note C = completing_facts [OF inv k, unfolded pc, simplified]
  have wi: "worker_inv (m_status s) ?w" by (rule worker_invD [OF inv k])
  have s': "complete_status k s = s\<lparr> m_status := READY, m_workers := ws' \<rparr>"
    using I(6) by (simp add: complete_status_def goto_def ws'_def)
  have len: "length ws' = length ?ws" by (simp add: ws'_def)
  have cb: "cnt busy ws' = 0"
    using k C(2) by (simp add: cnt_update ws'_def)
  have cc: "cnt completing ws' = 1"
    using k pc C(1) by (simp add: cnt_update completing_def ws'_def)
  have "\<not> clearing (ws' ! j)" if "j < length ws'" for j
    using C(5) [of j] that k by (cases "j = k") (auto simp add: ws'_def clearing_def)
  then have ccl: "cnt clearing ws' = 0"
    by (auto simp: cnt_zero_iff in_set_conv_nth)
  have all: "\<forall>x\<in>set ws'. worker_inv READY x"
    unfolding ws'_def
  proof (rule ball_update_nthI [OF k])
    fix j assume j: "j < length ?ws" "j \<noteq> k"
    from C(5) [OF j] worker_invD [OF inv j(1)]
    show "worker_inv READY (?ws ! j)"
      by (cases "pc (?ws ! j)") (auto simp add: worker_inv_def)
  next
    show "worker_inv READY (?w\<lparr> pc := Resolve False \<rparr>)"
      by (simp add: worker_inv_def)
  qed
  have clr: "\<not> 0 < cnt clearing ws'" using ccl by simp
  show ?thesis
    unfolding s'
    by (rule pool_invI) (use I(1-5) C(2,3) all len clr in \<open>simp_all add: cb cc\<close>)
qed

lemma inv_resolve:
  assumes inv: "pool_inv wl0 h s" and k: "k < length (m_workers s)"
    and pc: "pc (m_workers s ! k) = Resolve failed"
  shows "pool_inv wl0 h (resolve k failed s)"
proof -
  let ?ws = "m_workers s"
  let ?w = "?ws ! k"
  define ws' where "ws' = ?ws[k := ?w\<lparr> pc := WaitForWork \<rparr>]"
  note I = pool_invD [OF inv]
  note C = completing_facts [OF inv k, unfolded pc, simplified]
  have wi: "worker_inv (m_status s) ?w" by (rule worker_invD [OF inv k])
  have nf: "\<not> failed" and rd: "m_status s = READY"
    using wi pc by (cases failed; simp add: worker_inv_def)+
  have s': "resolve k failed s = s\<lparr> promises := (promises s)[h := Value], m_workers := ws' \<rparr>"
    using nf I(3,4) C(3) by (simp add: resolve_def set_result_def goto_def ws'_def)
  have len: "length ws' = length ?ws" by (simp add: ws'_def)
  have cb: "cnt busy ws' = 0"
    using k C(2) by (simp add: cnt_update ws'_def)
  have cc: "cnt completing ws' = 0"
    using k pc C(1) by (simp add: cnt_update completing_def ws'_def)
  have ccl: "cnt clearing ws' = 0"
    using cc cnt_clearing_le [of ws'] cnt_nonneg [of clearing ws'] by simp
  have wi': "worker_inv (m_status s) (?w\<lparr> pc := WaitForWork \<rparr>)"
    by (simp add: worker_inv_def)
  have all: "\<forall>x\<in>set ws'. worker_inv (m_status s) x"
    unfolding ws'_def using I(7) wi' by (rule ball_updateI)
  show ?thesis
    unfolding s'
    by (rule pool_invI) (use I(1-5) C(2) all len rd in \<open>simp_all add: cb cc ccl\<close>)
qed

lemma inv_lw_set:
  assumes inv: "pool_inv wl0 h s" and k: "k < length (m_workers s)"
    and pc: "pc (m_workers s ! k) = LW_set"
  shows "pool_inv wl0 h (lw_set k s)"
proof (cases "m_errorHandling s = TERMINATE \<and> m_status s \<noteq> TERMINATING")
  case False
  have "lw_set k s = goto k LW_check s"
  proof (cases "m_status s = TERMINATING")
    case True
    then have "s\<lparr> m_status := TERMINATING \<rparr> = s" by (cases s) simp
    then show ?thesis by (simp add: lw_set_def)
  next
    case False
    with \<open>\<not> (m_errorHandling s = TERMINATE \<and> m_status s \<noteq> TERMINATING)\<close>
    show ?thesis by (simp add: lw_set_def)
  qed
  moreover have "pool_inv wl0 h (goto k LW_check s)"
    using inv k pc worker_invD [OF inv k]
    by (intro pool_inv_goto) (auto simp: dead_def worker_inv_def)
  ultimately show ?thesis by simp
next
  case True
  let ?ws = "m_workers s"
  let ?w = "?ws ! k"
  define ws' where "ws' = ?ws[k := ?w\<lparr> pc := LW_check \<rparr>]"
  note I = pool_invD [OF inv]
  have wi: "worker_inv (m_status s) ?w" by (rule worker_invD [OF inv k])
  have b: "busy ?w" using wi pc True by (auto simp add: worker_inv_def)
  have pos: "0 < cnt busy ?ws" using k b by (rule cnt_pos)
  have cz: "cnt completing ?ws = 0" using I(9) pos cnt_nonneg [of completing ?ws] by force
  have s': "lw_set k s = s\<lparr> m_status := TERMINATING, m_workers := ws' \<rparr>"
    using True by (simp add: lw_set_def goto_def ws'_def)
  have len: "length ws' = length ?ws" by (simp add: ws'_def)
  have cb: "cnt busy ws' = cnt busy ?ws"
    using k by (simp add: cnt_update ws'_def)
  have cc: "cnt completing ws' = 0"
    using k pc cz by (simp add: cnt_update completing_def ws'_def)
  have ccl: "cnt clearing ws' = 0"
    using cc cnt_clearing_le [of ws'] cnt_nonneg [of clearing ws'] by simp
  have cd: "0 < cnt dead ws'"
    using k b by (intro cnt_pos [of k]) (simp_all add: ws'_def dead_def)
  have each: "worker_inv TERMINATING x" if "x \<in> set ?ws" for x
  proof -
    have "\<not> completing x" using cz that by (simp add: cnt_zero_iff)
    moreover have "worker_inv (m_status s) x" using I(7) that by blast
    ultimately show ?thesis
      by (cases "pc x") (auto simp add: worker_inv_def completing_def)
  qed
  have all: "\<forall>x\<in>set ws'. worker_inv TERMINATING x"
    unfolding ws'_def using each
    by (intro ball_updateI) (auto simp: worker_inv_def b)
  have wl: "m_workload s = wl0" using I(13) pos by simp
  have pend: "promises s ! h = Pending" using I(12) pos by auto
  show ?thesis
    unfolding s'
    by (rule pool_invI) (use I(1-5) all len wl pend pos cd in \<open>simp_all add: cb cc ccl\<close>)
qed

lemma pool_inv_step:
  assumes inv: "pool_inv wl0 h s"
  shows "pool_inv wl0 h (worker_step k s)"
proof (cases "fault s \<noteq> None \<or> length (m_workers s) \<le> k")
  case True
  then show ?thesis using inv by (simp add: worker_step_def)
next
  case False
  then have k: "k < length (m_workers s)" by simp
  show ?thesis
  proof (cases "pc (m_workers s ! k)")
    case (SQ_call i)
    then show ?thesis
      using False inv_call_task [OF inv k, of i SQ_claim i] by (simp add: worker_step_def)
  qed (use False inv k in \<open>simp_all add: worker_step_def inv_waitForWork inv_checkTerminating
        inv_sq_claim inv_sq_test inv_mq_test inv_mq_call inv_finish inv_complete_clear
        inv_complete_status inv_resolve inv_lw_after inv_lw_record inv_lw_set inv_lw_check\<close>)
qed

lemma pool_inv_run: "pool_inv wl0 h s \<Longrightarrow> pool_inv wl0 h (run sched s)"
  unfolding run_def by (induction sched arbitrary: s) (simp_all add: pool_inv_step)

subsection \<open>What the workers never change\<close>

lemma same_config_refl [simp]: "same_config s s"
  by (simp add: same_config_def)

lemma map_update_same: "f w = f (ws ! k) \<Longrightarrow> map f (ws[k := w]) = map f ws"
proof (cases "k < length ws")
  case True
  assume "f w = f (ws ! k)"
  with True have "(map f ws)[k := f w] = (map f ws)[k := map f ws ! k]" by simp
  then show ?thesis by (simp add: map_update)
next
  case False
  then show ?thesis by (simp add: list_update_beyond not_less)
qed

lemma same_config_frame:
  assumes "m_errorHandling s' = m_errorHandling s" and "m_size s' = m_size s"
    and "m_clearMode s' = m_clearMode s" and "m_workers s' = m_workers s"
  shows "same_config s0 s' = same_config s0 s"
  using assms by (simp add: same_config_def)

lemma same_config_goto [simp]: "same_config s0 (goto k c s) = same_config s0 s"
  by (simp add: same_config_def goto_def map_update_same)

lemma same_config_upd_it [simp]:
  "same_config s0 (upd_worker k (\<lambda>x. x\<lparr> it := f x \<rparr>) s) = same_config s0 s"
  by (simp add: same_config_def upd_worker_def map_update_same)

lemma same_config_upd_busy [simp]:
  "same_config s0 (upd_worker k (\<lambda>x. x\<lparr> busy := b \<rparr>) s) = same_config s0 s"
  by (simp add: same_config_def upd_worker_def map_update_same)

lemma same_config_updates [simp]:
  "same_config s0 (m_index_update f1 s) = same_config s0 s"
  "same_config s0 (claimed_update f2 s) = same_config s0 s"
  "same_config s0 (executed_update f3 s) = same_config s0 s"
  "same_config s0 (fault_update f4 s) = same_config s0 s"
  "same_config s0 (m_errors_update f5 s) = same_config s0 s"
  "same_config s0 (sLog_update f6 s) = same_config s0 s"
  "same_config s0 (m_dirty_update f7 s) = same_config s0 s"
  "same_config s0 (m_active_update f8 s) = same_config s0 s"
  "same_config s0 (m_status_update f9 s) = same_config s0 s"
  "same_config s0 (m_workload_update f10 s) = same_config s0 s"
  "same_config s0 (promises_update f11 s) = same_config s0 s"
  by (simp_all add: same_config_def)

lemma same_config_raise [simp]: "same_config s0 (raise_in_loop k e s) = same_config s0 s"
  by (simp add: raise_in_loop_def)

lemma same_config_call_task [simp]: "same_config s0 (call_task k j c s) = same_config s0 s"
  by (simp add: call_task_def Let_def split: task.split)



subsection \<open>Processing without a worker leaving its loop\<close>

lemma calm_updates [simp]:
  "calm s0 (m_index_update f1 s) = calm s0 s"
  "calm s0 (claimed_update f2 s) = calm s0 s"
  "calm s0 (executed_update f3 s) = calm s0 s"
  "calm s0 (m_dirty_update f7 s) = calm s0 s"
  "calm s0 (m_active_update f8 s) = calm s0 s"
  "calm s0 (m_workload_update f10 s) = calm s0 s"
  "calm s0 (promises_update f11 s) = calm s0 s"
  by (simp_all add: calm_def)









subsection \<open>Failures under TERMINATE\<close>




lemma term_inv_updates [simp]:
  "term_inv wl0 (m_index_update f1 s) = term_inv wl0 s"
  "term_inv wl0 (claimed_update f2 s) = term_inv wl0 s"
  "term_inv wl0 (m_dirty_update f7 s) = term_inv wl0 s"
  "term_inv wl0 (m_active_update f8 s) = term_inv wl0 s"
  "term_inv wl0 (m_workload_update f10 s) = term_inv wl0 s"
  "term_inv wl0 (promises_update f11 s) = term_inv wl0 s"
  "term_inv wl0 (fault_update f12 s) = term_inv wl0 s"
  by (simp_all add: term_inv_def handled_def)

lemma not_handled:
  assumes "pc w \<noteq> LW_after (Some e)" "pc w \<noteq> LW_record (Some e)" "pc w \<noteq> LW_set"
    "pc w \<noteq> LW_check" "pc w \<noteq> Exited"
  shows "\<not> handled e w s"
  using assms by (simp add: handled_def)




subsection \<open>Evaluation of the examples\<close>

lemmas eval_defs = example_pool_def start_def ThreadPool_ctor_def header_defaults_def
  new_worker_def processWorkload_def processWorkload_with_def operator_lshift_def
  clearWorkload_def prepare_def abandon_def Let_def
  run_def worker_step_def waitForWork_def checkTerminating_def sq_claim_def sq_test_def
  call_task_def mq_test_def mq_call_def finish_def complete_clear_def complete_status_def
  resolve_def set_result_def lw_after_def lw_record_def lw_set_def lw_check_def
  goto_def upd_worker_def raise_in_loop_def status_def wrap_int_def log_message_def
  taskErrors_def upt_conv_Cons

lemma finished_pool_eq:
  "finished_pool =
     \<lparr> m_errorHandling = NONE, m_size = 1, m_clearMode = AT_NEXT_WORKLOAD, m_active = 0,
       m_status = READY, m_dirty = True, m_index = 2, m_workload = [Returns], m_errors = [],
       m_result = 1,
       m_workers = [\<lparr> worker_id = 0, busy = False, strategy = SingleQueue, it = 0,
                      pc = WaitForWork \<rparr>],
       promises = [Abandoned, Value], sLog = [], claimed = [(0, 0), (0, 1)],
       executed = [(0, 0)], fault = None \<rparr>"
  unfolding finished_pool_def by (simp add: eval_defs)

lemma processing_pool_eq:
  "processing_pool =
     \<lparr> m_errorHandling = NONE, m_size = 2, m_clearMode = AT_NEXT_WORKLOAD, m_active = 2,
       m_status = PROCESSING, m_dirty = True, m_index = 0,
       m_workload = [Returns, Returns, Returns], m_errors = [], m_result = 1,
       m_workers = [\<lparr> worker_id = 0, busy = True, strategy = SingleQueue, it = 0,
                      pc = WaitForWork \<rparr>,
                    \<lparr> worker_id = 1, busy = True, strategy = SingleQueue, it = 0,
                      pc = WaitForWork \<rparr>],
       promises = [Abandoned, Pending], sLog = [], claimed = [], executed = [],
       fault = None \<rparr>"
  unfolding processing_pool_def by (simp add: eval_defs)

subsection \<open>Construction\<close>

text \<open>
  Claim C8, as amended. The constructor, called with a thread count that is not
  negative, stores the thread count, the clear mode and the error-handling mode,
  sets the active-worker counter to 0 and leaves the list of workers empty
  (\<^verbatim>\<open>reserve\<close> only reserves capacity for \<open>numThreads\<close> workers); it does not
  assign the status, whose initial value is the one of the class declaration.
\<close>

theorem C8_ctor_creates_no_worker:
  "0 \<le> numThreads \<Longrightarrow>
   \<exists>p. ThreadPool_ctor d numThreads when mode = Inr p \<and>
       m_workers p = [] \<and> m_size p = numThreads \<and> m_clearMode p = when \<and>
       m_errorHandling p = mode \<and> m_active p = 0 \<and> m_status p = default_status d \<and>
       m_workload p = [] \<and> m_errors p = []"
  by (simp add: ThreadPool_ctor_def)

theorem C8_ctor_creates_no_worker_witness:
  "(0::int) \<le> 4 \<and>
   (\<exists>p. ThreadPool_ctor header_defaults 4 UPPON_COMPLETION IGNORE = Inr p \<and>
        m_workers p = [] \<and> m_size p = 4 \<and> m_clearMode p = UPPON_COMPLETION \<and>
        m_errorHandling p = IGNORE \<and> m_active p = 0 \<and>
        m_status p = default_status header_defaults \<and>
        m_workload p = [] \<and> m_errors p = [])"
  using C8_ctor_creates_no_worker [of 4 header_defaults UPPON_COMPLETION IGNORE] by simp

text \<open>
  Claim C8 as stated fails: after the construction with a thread count of 4 the
  pool has no worker, not 4.
\<close>

theorem C8_counterexample:
  "length (m_workers (projr (ThreadPool_ctor header_defaults 4 AT_NEXT_WORKLOAD NONE))) \<noteq> 4"
  by (simp add: ThreadPool_ctor_def)

subsection \<open>Appending a task\<close>

text \<open>
  Claim C5. When the status is \<^verbatim>\<open>PROCESSING\<close> or \<^verbatim>\<open>ERROR\<close>,
  \<^verbatim>\<open>operator<<\<close> throws and the pool, in particular its workload, is the same
  after the call as before.
\<close>

theorem C5_append_rejected:
  "m_status p = PROCESSING \<or> m_status p = ERROR \<Longrightarrow>
   operator_lshift packaged_task p = (Some AppendWhileProcessing, p) \<and>
   m_workload (snd (operator_lshift packaged_task p)) = m_workload p"
  by (auto simp: operator_lshift_def)

theorem C5_append_rejected_witness:
  "(m_status processing_pool = PROCESSING \<or> m_status processing_pool = ERROR) \<and>
   operator_lshift (Throws (StdString ''x'')) processing_pool =
     (Some AppendWhileProcessing, processing_pool) \<and>
   m_workload (snd (operator_lshift (Throws (StdString ''x'')) processing_pool)) =
     [Returns, Returns, Returns]"
  using C5_append_rejected [of processing_pool "Throws (StdString ''x'')"]
  by (simp add: processing_pool_eq)

subsection \<open>Processing the pending workload\<close>

lemma fold_prepare_aux:
  "n \<le> length ws \<Longrightarrow>
   fold (\<lambda>i ws. ws[i := f (ws ! i)]) [0..<n] ws = map f (take n ws) @ drop n ws"
proof (induction n)
  case 0
  then show ?case by simp
next
  case (Suc n)
  then have n: "n < length ws" by simp
  have "(map f (take n ws) @ drop n ws)[n := f ((map f (take n ws) @ drop n ws) ! n)]
        = map f (take (Suc n) ws) @ drop (Suc n) ws"
    using n by (simp add: list_update_append nth_append take_Suc_conv_app_nth
        Cons_nth_drop_Suc [symmetric])
  with Suc show ?case by simp
qed

lemma fold_prepare:
  "fold (\<lambda>i ws. ws[i := f (ws ! i)]) [0..<length ws] ws = map f ws"
  using fold_prepare_aux [of "length ws" ws f] by simp

lemma length_abandon [simp]: "length (abandon h ps) = length ps"
  by (simp add: abandon_def)

lemma busy_prepare [simp]: "busy (prepare w)"
  by (simp add: prepare_def split: Strategy.split)

lemma processWorkload_started:
  assumes "m_status p = READY" and "m_workload p \<noteq> []"
    and "\<not> (m_clearMode p = AT_NEXT_WORKLOAD \<and> m_dirty p)"
    and "length (m_workers p) = nat (m_size p)"
  shows "processWorkload p =
     (Some (length (promises p)),
      p\<lparr> promises := abandon (m_result p) (promises p) @ [Pending],
         m_result := length (promises p), m_dirty := True, m_active := m_size p,
         m_index := 0, m_status := PROCESSING, claimed := [], executed := [],
         m_workers := map prepare (m_workers p) \<rparr>)"
  using assms fold_prepare [of prepare "m_workers p"]
  by (auto simp: processWorkload_def Let_def)

text \<open>
  Claim C4, as amended. A call of \<^verbatim>\<open>processWorkload\<close> in status \<^verbatim>\<open>READY\<close>
  with a workload that is not empty, on a pool that has its \<^verbatim>\<open>m_size\<close>
  workers, and unless the clear mode is \<^verbatim>\<open>AT_NEXT_WORKLOAD\<close> and the workload is
  dirty: creates a new promise, which is pending, marks the workload dirty, sets
  the active counter to the number of workers, resets the shared index, sets the
  status to \<^verbatim>\<open>PROCESSING\<close>, calls \<^verbatim>\<open>prepare\<close> of every worker (so every
  worker is busy, which ends its wait) and returns the future of the new promise.
\<close>

theorem C4_processWorkload_starts:
  assumes "m_status p = READY" and "m_workload p \<noteq> []"
    and "\<not> (m_clearMode p = AT_NEXT_WORKLOAD \<and> m_dirty p)"
    and "length (m_workers p) = nat (m_size p)"
  shows "processWorkload p =
     (Some (length (promises p)),
      p\<lparr> promises := abandon (m_result p) (promises p) @ [Pending],
         m_result := length (promises p), m_dirty := True, m_active := m_size p,
         m_index := 0, m_status := PROCESSING, claimed := [], executed := [],
         m_workers := map prepare (m_workers p) \<rparr>) \<and>
     promises (snd (processWorkload p)) ! length (promises p) = Pending \<and>
     list_all busy (m_workers (snd (processWorkload p)))"
  using processWorkload_started [OF assms]
  by (simp add: nth_append list_all_iff)

theorem C4_processWorkload_starts_witness:
  "m_status (example_pool MultiQueue 2 UPPON_COMPLETION IGNORE [Returns, Returns]) = READY \<and>
   fst (processWorkload (example_pool MultiQueue 2 UPPON_COMPLETION IGNORE [Returns, Returns]))
     = Some 1 \<and>
   m_status (snd (processWorkload
     (example_pool MultiQueue 2 UPPON_COMPLETION IGNORE [Returns, Returns]))) = PROCESSING \<and>
   m_active (snd (processWorkload
     (example_pool MultiQueue 2 UPPON_COMPLETION IGNORE [Returns, Returns]))) = 2 \<and>
   map it (m_workers (snd (processWorkload
     (example_pool MultiQueue 2 UPPON_COMPLETION IGNORE [Returns, Returns])))) = [0, 1]"
  using C4_processWorkload_starts
    [of "example_pool MultiQueue 2 UPPON_COMPLETION IGNORE [Returns, Returns]"]
  by (simp add: example_pool_def start_def ThreadPool_ctor_def header_defaults_def
      new_worker_def prepare_def abandon_def upt_conv_Cons)

text \<open>
  Claim C4 as stated fails: the pool that has processed its workload under
  \<^verbatim>\<open>AT_NEXT_WORKLOAD\<close> is in status \<^verbatim>\<open>READY\<close> with a workload that is not
  empty, and \<^verbatim>\<open>processWorkload\<close> returns the empty future and starts nothing.
\<close>

theorem C4_counterexample:
  "m_status finished_pool = READY \<and> m_workload finished_pool \<noteq> [] \<and>
   fst (processWorkload finished_pool) = None \<and>
   m_status (snd (processWorkload finished_pool)) = READY \<and>
   m_active (snd (processWorkload finished_pool)) = 0 \<and>
   promises (snd (processWorkload finished_pool)) = promises finished_pool"
  by (simp add: finished_pool_eq processWorkload_def clearWorkload_def)

text \<open>
  Claim C6. When the status is not \<^verbatim>\<open>READY\<close> or the workload is empty,
  \<^verbatim>\<open>processWorkload\<close> returns the empty future and changes neither the status
  nor the active counter; the only member that can change is the dirty flag
  (reset when the clear mode is \<^verbatim>\<open>AT_NEXT_WORKLOAD\<close> and the status is
  \<^verbatim>\<open>READY\<close>).
\<close>

theorem C6_processWorkload_noop:
  "m_status p \<noteq> READY \<or> m_workload p = [] \<Longrightarrow>
   fst (processWorkload p) = None \<and>
   m_status (snd (processWorkload p)) = m_status p \<and>
   m_active (snd (processWorkload p)) = m_active p \<and>
   snd (processWorkload p) =
     p\<lparr> m_dirty := m_dirty p \<and> \<not> (m_clearMode p = AT_NEXT_WORKLOAD \<and> m_status p = READY) \<rparr>"
  by (auto simp: processWorkload_def clearWorkload_def Let_def)

theorem C6_processWorkload_noop_witness:
  "m_status processing_pool = PROCESSING \<and>
   processWorkload processing_pool = (None, processing_pool) \<and>
   m_active (snd (processWorkload processing_pool)) = 2"
  using C6_processWorkload_noop [of processing_pool]
  by (simp add: processing_pool_eq prod_eq_iff)

text \<open>
  Claim C10. When the clear mode is \<^verbatim>\<open>AT_NEXT_WORKLOAD\<close>, the status is
  \<^verbatim>\<open>READY\<close> and the workload is dirty, \<^verbatim>\<open>processWorkload\<close> clears the
  workload and returns the empty future; the status stays \<^verbatim>\<open>READY\<close>, no worker
  is armed, and a further call finds the workload empty and does nothing.
\<close>

theorem C10_dirty_workload_not_rerun:
  "m_clearMode p = AT_NEXT_WORKLOAD \<Longrightarrow> m_status p = READY \<Longrightarrow> m_dirty p \<Longrightarrow>
   processWorkload p = (None, clearWorkload p) \<and>
   m_workload (clearWorkload p) = [] \<and>
   m_status (clearWorkload p) = READY \<and>
   m_workers (clearWorkload p) = m_workers p \<and>
   m_active (clearWorkload p) = m_active p \<and>
   promises (clearWorkload p) = promises p \<and>
   processWorkload (clearWorkload p) = (None, clearWorkload p)"
  by (simp add: processWorkload_def clearWorkload_def Let_def)

theorem C10_dirty_workload_not_rerun_witness:
  "m_clearMode finished_pool = AT_NEXT_WORKLOAD \<and> m_status finished_pool = READY \<and>
   m_dirty finished_pool \<and> m_workload finished_pool = [Returns] \<and>
   fst (processWorkload finished_pool) = None \<and>
   m_workload (snd (processWorkload finished_pool)) = []"
  using C10_dirty_workload_not_rerun [of finished_pool]
  by (simp add: finished_pool_eq)

subsection \<open>The error list\<close>

lemma errors_kept_refl [simp]: "errors_kept p p"
  by (simp add: errors_kept_def)


lemma errors_kept_frame:
  assumes "m_errors p' = m_errors p" and "promises p' = promises p"
  shows "errors_kept p p'"
  using assms by (simp add: errors_kept_def)

lemma errors_kept_goto [simp]: "errors_kept p (goto k c p)"
  by (rule errors_kept_frame) (simp_all add: goto_def)


lemma errors_kept_raise:
  assumes "m_errors p' = m_errors p" and "promises p' = promises p"
  shows "errors_kept p (raise_in_loop k e p')"
  using assms by (intro errors_kept_frame) (simp_all add: raise_in_loop_def goto_def)










subsection \<open>Failures under IGNORE\<close>


lemma pc_prepare [simp]: "pc (prepare w) = pc w"
  by (simp add: prepare_def split: Strategy.split)

lemma worker_id_prepare [simp]: "worker_id (prepare w) = worker_id w"
  by (simp add: prepare_def split: Strategy.split)

lemma strategy_prepare [simp]: "strategy (prepare w) = strategy w"
  by (simp add: prepare_def split: Strategy.split)












subsection \<open>A failure under TERMINATE\<close>







subsection \<open>The MultiQueue strategy\<close>















subsection \<open>The SingleQueue strategy\<close>



















end
